theory Spec2Isabelle
  imports Main "HOL-Library.Word"
begin

section \<open>Data model\<close>

text \<open>
  A JavaScript string is a sequence of UTF-16 code units. \<open>text.split('')\<close> cuts a string
  into its code units, \<open>join('')\<close> concatenates the pieces again, and the regular
  expressions of the service (no \<open>u\<close> flag) look at one code unit at a time.
\<close>

type_synonym code_unit = "16 word"
type_synonym jsstring = "code_unit list"

text \<open>An ASCII literal of the source as a JavaScript string.\<close>

definition str :: "string \<Rightarrow> jsstring" where
  "str s = map of_char s"

text \<open>
  \<open>EncodingFormula\<close> of the type declarations. \<open>shiftValue\<close> is a \<open>number\<close> in the source;
  the model covers the integers, with exact arithmetic. \<open>customMapping\<close> is an object:
  it is represented by its own entries in the order \<open>Object.entries\<close> enumerates them
  (for keys that are not array indices, the insertion order). The \<open>algorithm\<close> tag is
  the string found at run time, which the \<open>switch\<close> statements compare with the five tags.
\<close>

record parameters =
  shiftValue :: "int option"
  customMapping :: "(jsstring \<times> jsstring) list option"
  digitShufflePattern :: "int list option"
  reverseOrder :: "bool option"
  customFunction :: "jsstring option"

record EncodingFormula =
  formula_id :: jsstring
  name :: jsstring
  algorithm :: jsstring
  parameters :: parameters
  createdAt :: nat
  description :: "jsstring option"

datatype error = UnknownAlgorithm jsstring | CustomFunctionError

text \<open>
  The function built by \<open>new Function('text', functionCode)\<close> and applied to \<open>text\<close> is the
  JavaScript engine's business. It is a parameter of the model: \<open>run functionCode text\<close>
  is \<open>Inl e\<close> when building or calling the function throws, \<open>Inr None\<close> when the call
  returns no string (\<open>undefined\<close>), and \<open>Inr (Some s)\<close> when it returns the string \<open>s\<close>.
\<close>

type_synonym engine = "jsstring \<Rightarrow> jsstring \<Rightarrow> error + jsstring option"

section \<open>JavaScript primitives used by the service\<close>

text \<open>The remainder operator \<open>%\<close> on integers: the result has the sign of the dividend.\<close>

definition js_rem :: "int \<Rightarrow> int \<Rightarrow> int" where
  "js_rem a b = sgn a * (\<bar>a\<bar> mod \<bar>b\<bar>)"

text \<open>\<open>String.fromCharCode(n)\<close>: one code unit, \<open>n\<close> taken modulo \<open>2^16\<close>.\<close>

definition fromCharCode :: "int \<Rightarrow> jsstring" where
  "fromCharCode n = [word_of_int n]"

text \<open>\<open>char.charCodeAt(0)\<close> of a one-unit string.\<close>

definition charCodeAt0 :: "code_unit \<Rightarrow> int" where
  "charCodeAt0 c = uint c"

text \<open>\<open>xs.slice(start, end)\<close>, negative indices counting from the end.\<close>

definition slice :: "'a list \<Rightarrow> int \<Rightarrow> int \<Rightarrow> 'a list" where
  "slice xs start fin =
     (let len = int (length xs);
          k = (if start < 0 then max (len + start) 0 else min start len);
          final = (if fin < 0 then max (len + fin) 0 else min fin len)
      in take (nat (final - k)) (drop (nat k) xs))"

text \<open>\<open>a || b\<close> on strings (the empty string is falsy) and on numbers (zero is falsy).\<close>

definition str_or :: "jsstring option \<Rightarrow> jsstring \<Rightarrow> jsstring" where
  "str_or a b = (case a of Some s \<Rightarrow> if s \<noteq> [] then s else b | None \<Rightarrow> b)"

definition num_or :: "int option \<Rightarrow> int \<Rightarrow> int" where
  "num_or a b = (case a of Some n \<Rightarrow> if n \<noteq> 0 then n else b | None \<Rightarrow> b)"

text \<open>The character classes \<open>/[A-Z]/\<close>, \<open>/[A-Za-z]/\<close>, \<open>/[0-9]/\<close> and \<open>/[A-Za-z0-9]/\<close>.\<close>

definition isUpper :: "code_unit \<Rightarrow> bool" where
  "isUpper c = (65 \<le> c \<and> c \<le> 90)"

definition isLetter :: "code_unit \<Rightarrow> bool" where
  "isLetter c = (isUpper c \<or> (97 \<le> c \<and> c \<le> 122))"

definition isDigit :: "code_unit \<Rightarrow> bool" where
  "isDigit c = (48 \<le> c \<and> c \<le> 57)"

definition isAlnum :: "code_unit \<Rightarrow> bool" where
  "isAlnum c = (isLetter c \<or> isDigit c)"

section \<open>The algorithms of EncodingService\<close>

definition caesarChar :: "int \<Rightarrow> code_unit \<Rightarrow> jsstring" where
  "caesarChar shift c =
     (if isLetter c then
        (let base = (if isUpper c then 65 else 97)
         in fromCharCode (js_rem (charCodeAt0 c - base + shift + 26) 26 + base))
      else if isDigit c then
        fromCharCode (js_rem (charCodeAt0 c - 48 + shift + 10) 10 + 48)
      else [c])"

definition caesarCipher :: "jsstring \<Rightarrow> int \<Rightarrow> jsstring" where
  "caesarCipher text shift = concat (map (caesarChar shift) text)"

text \<open>
  The callback of \<open>digitReversal\<close> reads and increments the variable \<open>reversedIndex\<close>; the
  model passes it along. \<open>reversed[i]\<close> is \<open>undefined\<close> out of range, and
  \<open>reversed[i] || char\<close> then gives \<open>char\<close>.
\<close>

fun digitReversal_map :: "jsstring list \<Rightarrow> nat \<Rightarrow> jsstring \<Rightarrow> jsstring list" where
  "digitReversal_map reversed reversedIndex [] = []"
| "digitReversal_map reversed reversedIndex (c # rest) =
     (if isAlnum c then
        (if reversedIndex < length reversed
         then str_or (Some (reversed ! reversedIndex)) [c]
         else [c]) # digitReversal_map reversed (reversedIndex + 1) rest
      else [c] # digitReversal_map reversed reversedIndex rest)"

definition digitReversal :: "jsstring \<Rightarrow> jsstring" where
  "digitReversal text =
     (let alphanumeric = map (\<lambda>c. [c]) (filter isAlnum text);
          reversed = rev alphanumeric
      in concat (digitReversal_map reversed 0 text))"

definition positionShift :: "jsstring \<Rightarrow> int \<Rightarrow> jsstring" where
  "positionShift text shift =
     (let chars = text; len = int (length chars)
      in if len \<le> 1 then text
         else (let actualShift = js_rem (js_rem shift len + len) len
               in slice chars actualShift len @ slice chars 0 actualShift))"

definition customMapping_apply :: "jsstring \<Rightarrow> (jsstring \<times> jsstring) list \<Rightarrow> jsstring" where
  "customMapping_apply text mapping =
     concat (map (\<lambda>c. str_or (map_of mapping [c]) [c]) text)"

text \<open>
  The inverse object is filled entry by entry; a later entry with the same value
  overwrites the earlier one.
\<close>

definition reverseMap :: "(jsstring \<times> jsstring) list \<Rightarrow> (jsstring \<rightharpoonup> jsstring)" where
  "reverseMap mapping = foldl (\<lambda>acc (key, val). acc(val \<mapsto> key)) Map.empty mapping"

definition reverseCustomMapping :: "jsstring \<Rightarrow> (jsstring \<times> jsstring) list \<Rightarrow> jsstring" where
  "reverseCustomMapping text mapping =
     concat (map (\<lambda>c. str_or (reverseMap mapping [c]) [c]) text)"

definition customFunction_apply :: "engine \<Rightarrow> jsstring \<Rightarrow> jsstring \<Rightarrow> jsstring" where
  "customFunction_apply run text functionCode =
     (case run functionCode text of
        Inl e \<Rightarrow> text
      | Inr r \<Rightarrow> str_or r text)"

definition reverseCustomFunction :: "jsstring \<Rightarrow> jsstring \<Rightarrow> jsstring" where
  "reverseCustomFunction text functionCode = text"

section \<open>encode and decode\<close>

text \<open>
  The body of the \<open>try\<close> block is a function into \<open>error + jsstring\<close>: \<open>Inl\<close> is the
  exception thrown by the \<open>default\<close> branch. \<open>encode\<close> and \<open>decode\<close> are the whole
  methods, with the guard in front and the \<open>catch\<close> block behind.
\<close>

definition encode_try :: "engine \<Rightarrow> jsstring \<Rightarrow> EncodingFormula \<Rightarrow> error + jsstring" where
  "encode_try run val formula =
     (if algorithm formula = str ''caesar'' then
        Inr (caesarCipher val (num_or (shiftValue (parameters formula)) 0))
      else if algorithm formula = str ''digit_reversal'' then
        Inr (digitReversal val)
      else if algorithm formula = str ''position_shift'' then
        Inr (positionShift val (num_or (shiftValue (parameters formula)) 0))
      else if algorithm formula = str ''custom_mapping'' then
        Inr (customMapping_apply val
               (case customMapping (parameters formula) of Some m \<Rightarrow> m | None \<Rightarrow> []))
      else if algorithm formula = str ''custom'' then
        Inr (customFunction_apply run val (str_or (customFunction (parameters formula)) []))
      else Inl (UnknownAlgorithm (algorithm formula)))"

definition encode :: "engine \<Rightarrow> jsstring \<Rightarrow> EncodingFormula \<Rightarrow> jsstring" where
  "encode run val formula =
     (if val = [] then val
      else (case encode_try run val formula of Inr r \<Rightarrow> r | Inl e \<Rightarrow> val))"

definition decode_try :: "engine \<Rightarrow> jsstring \<Rightarrow> EncodingFormula \<Rightarrow> error + jsstring" where
  "decode_try run encodedValue formula =
     (if algorithm formula = str ''caesar'' then
        Inr (caesarCipher encodedValue (- (num_or (shiftValue (parameters formula)) 0)))
      else if algorithm formula = str ''digit_reversal'' then
        Inr (digitReversal encodedValue)
      else if algorithm formula = str ''position_shift'' then
        Inr (positionShift encodedValue (- (num_or (shiftValue (parameters formula)) 0)))
      else if algorithm formula = str ''custom_mapping'' then
        Inr (reverseCustomMapping encodedValue
               (case customMapping (parameters formula) of Some m \<Rightarrow> m | None \<Rightarrow> []))
      else if algorithm formula = str ''custom'' then
        Inr (reverseCustomFunction encodedValue
               (str_or (customFunction (parameters formula)) []))
      else Inl (UnknownAlgorithm (algorithm formula)))"

definition decode :: "engine \<Rightarrow> jsstring \<Rightarrow> EncodingFormula \<Rightarrow> jsstring" where
  "decode run encodedValue formula =
     (if encodedValue = [] then encodedValue
      else (case decode_try run encodedValue formula of Inr r \<Rightarrow> r | Inl e \<Rightarrow> encodedValue))"

section \<open>validateFormula and testFormula\<close>

record validation =
  isValid :: bool
  errors :: "jsstring list"

definition validateFormula :: "EncodingFormula \<Rightarrow> validation" where
  "validateFormula formula =
     (let errors0 = [];
          errors1 = (if formula_id formula = [] then errors0 @ [str ''Formula ID is required'']
                     else errors0);
          errors2 = (if name formula = [] then errors1 @ [str ''Formula name is required'']
                     else errors1);
          errors3 = (if algorithm formula = [] then errors2 @ [str ''Algorithm is required'']
                     else errors2);
          errors4 =
            (if algorithm formula = str ''caesar'' then
               (if shiftValue (parameters formula) = None
                then errors3 @ [str ''Caesar cipher requires a numeric shift value'']
                else errors3)
             else if algorithm formula = str ''position_shift'' then
               (if shiftValue (parameters formula) = None
                then errors3 @ [str ''Position shift requires a numeric shift value'']
                else errors3)
             else if algorithm formula = str ''custom_mapping'' then
               (if customMapping (parameters formula) = None
                   \<or> customMapping (parameters formula) = Some []
                then errors3 @ [str ''Custom mapping requires at least one character mapping'']
                else errors3)
             else if algorithm formula = str ''custom'' then
               (if str_or (customFunction (parameters formula)) [] = []
                then errors3 @ [str ''Custom algorithm requires function code'']
                else errors3)
             else errors3)
      in \<lparr> isValid = (length errors4 = 0), errors = errors4 \<rparr>)"

record test_result =
  original :: jsstring
  encoded :: jsstring
  decoded :: jsstring
  isReversible :: bool

definition testFormula :: "engine \<Rightarrow> EncodingFormula \<Rightarrow> jsstring \<Rightarrow> test_result" where
  "testFormula run formula testValue =
     (let enc = encode run testValue formula;
          dec = decode run enc formula
      in \<lparr> original = testValue, encoded = enc, decoded = dec,
           isReversible = (testValue = dec) \<rparr>)"

text \<open>The formula literals used below: a formula is given by its tag and its parameters.\<close>

definition no_parameters :: parameters where
  "no_parameters = \<lparr> shiftValue = None, customMapping = None, digitShufflePattern = None,
                      reverseOrder = None, customFunction = None \<rparr>"

definition mk_formula :: "string \<Rightarrow> string \<Rightarrow> string \<Rightarrow> parameters \<Rightarrow> EncodingFormula" where
  "mk_formula i n a p = \<lparr> formula_id = str i, name = str n, algorithm = str a,
                          parameters = p, createdAt = 0, description = None \<rparr>"

text \<open>An engine for the examples: every function code throws.\<close>

definition no_engine :: engine where
  "no_engine code text = Inl CustomFunctionError"

text \<open>The closed enumeration \<open>EncodingAlgorithm\<close> of the type declarations.\<close>

definition EncodingAlgorithm :: "jsstring list" where
  "EncodingAlgorithm = [str ''caesar'', str ''digit_reversal'', str ''position_shift'',
                        str ''custom_mapping'', str ''custom'']"

text \<open>Three of the built-in formulas of \<open>initializeBuiltInFormulas\<close>.\<close>

definition caesar_shift_3 :: EncodingFormula where
  "caesar_shift_3 =
     (mk_formula ''caesar_shift_3'' ''Caesar Cipher (Shift by 3)'' ''caesar''
        (no_parameters\<lparr>shiftValue := Some 3\<rparr>))
     \<lparr>description := Some (str ''Shifts each character by 3 positions in the alphabet'')\<rparr>"

definition digit_reversal_builtin :: EncodingFormula where
  "digit_reversal_builtin =
     (mk_formula ''digit_reversal'' ''Digit Reversal'' ''digit_reversal''
        (no_parameters\<lparr>reverseOrder := Some True\<rparr>))
     \<lparr>description := Some (str ''Reverses the order of all digits in the account number'')\<rparr>"

definition position_shift_2 :: EncodingFormula where
  "position_shift_2 =
     (mk_formula ''position_shift_2'' ''Position Shift (2 places)'' ''position_shift''
        (no_parameters\<lparr>shiftValue := Some 2\<rparr>))
     \<lparr>description := Some (str ''Shifts each digit 2 positions forward cyclically'')\<rparr>"

text \<open>Further formulas for the examples.\<close>

definition caesar_shift_0 :: EncodingFormula where
  "caesar_shift_0 = mk_formula ''caesar_shift_0'' ''Caesar Cipher (Shift by 0)'' ''caesar''
                      (no_parameters\<lparr>shiftValue := Some 0\<rparr>)"

definition caesar_shift_13 :: EncodingFormula where
  "caesar_shift_13 = mk_formula ''caesar_shift_13'' ''Caesar Cipher (Shift by 13)'' ''caesar''
                       (no_parameters\<lparr>shiftValue := Some 13\<rparr>)"

definition mapping_a_c :: EncodingFormula where
  "mapping_a_c = mk_formula ''mapping_a_c'' ''a and c to b'' ''custom_mapping''
       (no_parameters\<lparr>customMapping := Some [(str ''a'', str ''b''), (str ''c'', str ''b'')]\<rparr>)"

definition mapping_c_a :: EncodingFormula where
  "mapping_c_a = mk_formula ''mapping_c_a'' ''c and a to b'' ''custom_mapping''
       (no_parameters\<lparr>customMapping := Some [(str ''c'', str ''b''), (str ''a'', str ''b'')]\<rparr>)"

definition custom_reverse :: EncodingFormula where
  "custom_reverse = mk_formula ''custom_reverse'' ''Reverse'' ''custom''
       (no_parameters\<lparr>customFunction := Some (str ''return Array.from(text).reverse().join(String())'')\<rparr>)"

definition unknown_formula :: EncodingFormula where
  "unknown_formula = mk_formula ''unknown'' ''Unknown'' ''rot47'' no_parameters"

text \<open>An engine for the examples: every function code reverses its argument.\<close>

definition reverse_engine :: engine where
  "reverse_engine code text = Inr (Some (rev text))"

section \<open>An auxiliary function for digitReversal\<close>

text \<open>
  \<open>refill r cs\<close> writes the elements of \<open>r\<close>, one after the other, into the alphanumeric
  positions of \<open>cs\<close>, and keeps the character of \<open>cs\<close> once \<open>r\<close> is used up. It is not
  part of the service: \<open>digitReversal\<close> is shown to compute
  \<open>refill (rev (filter isAlnum x)) x\<close>, and the properties of \<open>digitReversal\<close> are proved
  on \<open>refill\<close> by structural induction.
\<close>

fun refill :: "jsstring \<Rightarrow> jsstring \<Rightarrow> jsstring" where
  "refill r [] = []"
| "refill r (c # cs) =
     (if isAlnum c then (case r of [] \<Rightarrow> c # refill [] cs | a # r' \<Rightarrow> a # refill r' cs)
      else c # refill r cs)"


section \<open>The remainder operator and slices\<close>

lemma js_rem_nonneg: "0 \<le> a \<Longrightarrow> 0 < b \<Longrightarrow> js_rem a b = a mod b"
  by (cases "a = 0") (simp_all add: js_rem_def)

lemma js_rem_neg: "a < 0 \<Longrightarrow> 0 < b \<Longrightarrow> js_rem a b = - ((- a) mod b)"
  by (simp add: js_rem_def)

lemma js_rem_bounds: "0 < b \<Longrightarrow> - b < js_rem a b \<and> js_rem a b < b"
proof (cases "0 \<le> a")
  case True
  assume "0 < b"
  with True show ?thesis by (simp add: js_rem_nonneg) (smt (verit) pos_mod_sign)
next
  case False
  assume b: "0 < b"
  from b have "0 \<le> (- a) mod b" "(- a) mod b < b" by simp_all
  with False b show ?thesis by (simp add: js_rem_neg)
qed

lemma js_rem_cong_mod: "0 < b \<Longrightarrow> js_rem a b mod b = a mod b"
proof (cases "0 \<le> a")
  case True
  assume "0 < b"
  with True show ?thesis by (simp add: js_rem_nonneg)
next
  case False
  assume b: "0 < b"
  with False have "js_rem a b mod b = (- ((- a) mod b)) mod b" by (simp add: js_rem_neg)
  also have "\<dots> = (- (- a)) mod b" by (rule mod_minus_eq)
  finally show ?thesis by simp
qed

lemma js_rem_normalise: "0 < b \<Longrightarrow> js_rem (js_rem a b + b) b = a mod b"
proof -
  assume b: "0 < b"
  from js_rem_bounds [OF b, of a] have "0 \<le> js_rem a b + b" by simp
  with b have "js_rem (js_rem a b + b) b = (js_rem a b + b) mod b" by (simp add: js_rem_nonneg)
  also have "\<dots> = js_rem a b mod b" by simp
  finally show ?thesis using b by (simp add: js_rem_cong_mod)
qed

lemma slice_to_end: "0 \<le> a \<Longrightarrow> a \<le> int (length xs) \<Longrightarrow> slice xs a (int (length xs)) = drop (nat a) xs"
  by (simp add: slice_def Let_def min_def)

lemma slice_from_start: "0 \<le> a \<Longrightarrow> a \<le> int (length xs) \<Longrightarrow> slice xs 0 a = take (nat a) xs"
  by (simp add: slice_def Let_def min_def)

lemma positionShift_short: "length text \<le> 1 \<Longrightarrow> positionShift text shift = text"
  by (simp add: positionShift_def)


lemma positionShift_long:
  assumes "1 < length text"
  shows "positionShift text shift =
           drop (nat (shift mod int (length text))) text @ take (nat (shift mod int (length text))) text"
proof -
  let ?L = "int (length text)"
  from assms have L: "0 < ?L" by linarith
  have n: "js_rem (js_rem shift ?L + ?L) ?L = shift mod ?L" using L by (rule js_rem_normalise)
  have r1: "0 \<le> shift mod ?L" using L by (rule pos_mod_sign)
  have "shift mod ?L < ?L" using L by (rule pos_mod_bound)
  then have r2: "shift mod ?L \<le> ?L" by linarith
  from assms have nl: "\<not> ?L \<le> 1" by linarith
  have "positionShift text shift = slice text (shift mod ?L) ?L @ slice text 0 (shift mod ?L)"
    unfolding positionShift_def Let_def n using nl by (rule if_not_P)
  then show ?thesis
    by (simp only: slice_to_end [OF r1 r2] slice_from_start [OF r1 r2])
qed

section \<open>positionShift is a rotation\<close>

lemma positionShift_rotate:
  assumes "1 < length text"
  shows "positionShift text shift = rotate (nat (shift mod int (length text))) text"
proof -
  let ?L = "int (length text)"
  from assms have L: "0 < ?L" by linarith
  have "shift mod ?L < ?L" using L by (rule pos_mod_bound)
  moreover have "0 \<le> shift mod ?L" using L by (rule pos_mod_sign)
  ultimately have "nat (shift mod ?L) < length text" by linarith
  then have "nat (shift mod ?L) mod length text = nat (shift mod ?L)" by (rule mod_less)
  then show ?thesis by (simp only: positionShift_long [OF assms] rotate_drop_take)
qed

lemma length_positionShift: "length (positionShift text shift) = length text"
proof (cases "1 < length text")
  case True
  then show ?thesis by (simp only: positionShift_rotate length_rotate)
next
  case False
  then have "length text \<le> 1" by linarith
  then show ?thesis by (simp only: positionShift_short)
qed

lemma positionShift_inverse: "positionShift (positionShift text shift) (- shift) = text"
proof (cases "1 < length text")
  case False
  then have "length text \<le> 1" by linarith
  then show ?thesis by (simp only: positionShift_short)
next
  case True
  let ?L = "int (length text)"
  let ?a = "nat (shift mod ?L)" and ?b = "nat ((- shift) mod ?L)"
  from True have L: "0 < ?L" by linarith
  have a: "int ?a = shift mod ?L" using pos_mod_sign [OF L, of shift] by (rule nat_0_le)
  have b: "int ?b = (- shift) mod ?L" using pos_mod_sign [OF L, of "- shift"] by (rule nat_0_le)
  have "int (?a + ?b) mod ?L = (shift mod ?L + (- shift) mod ?L) mod ?L"
    by (simp only: of_nat_add a b)
  also have "\<dots> = (shift + (- shift)) mod ?L" by (rule mod_add_eq)
  also have "\<dots> = 0" by simp
  finally have "int ((?a + ?b) mod length text) = 0" by (simp only: zmod_int)
  then have z: "(?a + ?b) mod length text = 0" by (simp only: of_nat_eq_0_iff)
  have len: "1 < length (positionShift text shift)" using True by (simp only: length_positionShift)
  have "positionShift (positionShift text shift) (- shift)
          = rotate ?b (positionShift text shift)"
    by (simp only: positionShift_rotate [OF len] length_positionShift)
  also have "\<dots> = rotate ?b (rotate ?a text)"
    by (simp only: positionShift_rotate [OF True])
  also have "\<dots> = rotate (?b + ?a) text" by (rule rotate_rotate)
  also have "\<dots> = rotate ((?a + ?b) mod length text) text"
    by (simp only: add.commute [of ?b ?a] rotate_conv_mod [symmetric])
  also have "\<dots> = text" by (simp only: z rotate0 id_apply)
  finally show ?thesis .
qed

section \<open>caesarCipher\<close>

lemma uint_code_unit: "0 \<le> k \<Longrightarrow> k < 65536 \<Longrightarrow> uint (word_of_int k :: 16 word) = k"
  by (simp add: uint_word_of_int)

lemma isUpper_uint: "isUpper c \<longleftrightarrow> 65 \<le> uint c \<and> uint c \<le> 90"
  by (simp add: isUpper_def word_le_def)

lemma isLetter_uint: "isLetter c \<longleftrightarrow> (65 \<le> uint c \<and> uint c \<le> 90) \<or> (97 \<le> uint c \<and> uint c \<le> 122)"
  by (simp add: isLetter_def isUpper_uint word_le_def)

lemma isDigit_uint: "isDigit c \<longleftrightarrow> 48 \<le> uint c \<and> uint c \<le> 57"
  by (simp add: isDigit_def word_le_def)

lemma caesarChar_cases:
  "caesarChar shift c =
     (if 65 \<le> uint c \<and> uint c \<le> 90 then [word_of_int (js_rem (uint c - 65 + shift + 26) 26 + 65)]
      else if 97 \<le> uint c \<and> uint c \<le> 122 then [word_of_int (js_rem (uint c - 97 + shift + 26) 26 + 97)]
      else if 48 \<le> uint c \<and> uint c \<le> 57 then [word_of_int (js_rem (uint c - 48 + shift + 10) 10 + 48)]
      else [c])"
  by (simp add: caesarChar_def isLetter_uint isUpper_uint isDigit_uint fromCharCode_def
      charCodeAt0_def Let_def)

lemma length_caesarChar: "length (caesarChar shift c) = 1"
  by (simp add: caesarChar_cases)

lemma length_caesarCipher: "length (caesarCipher text shift) = length text"
  by (induction "text") (simp_all add: caesarCipher_def length_caesarChar)

lemma js_rem_block:
  assumes "0 \<le> p" "p < m" "0 \<le> p + s + m"
  shows "js_rem (p + s + m) m = (p + s) mod m"
proof -
  from assms have m: "0 < m" by linarith
  have "js_rem (p + s + m) m = (p + s + m) mod m" using assms(3) m by (rule js_rem_nonneg)
  then show ?thesis by simp
qed

lemma js_rem_block_zero:
  assumes "0 \<le> p" "p < m"
  shows "js_rem (p + 0 + m) m = p"
proof -
  from assms have "0 \<le> p + 0 + m" by linarith
  with assms have "js_rem (p + 0 + m) m = (p + 0) mod m" by (rule js_rem_block)
  with assms show ?thesis by simp
qed

lemma js_rem_block_back:
  assumes "0 \<le> p" "p < m" "- m \<le> s" "s \<le> m"
  shows "js_rem (js_rem (p + s + m) m + (- s) + m) m = p"
proof -
  from assms have m: "0 < m" by linarith
  let ?q = "(p + s) mod m"
  from assms have "0 \<le> p + s + m" by linarith
  then have q: "js_rem (p + s + m) m = ?q" by (rule js_rem_block [OF assms(1,2)])
  have q0: "0 \<le> ?q" using m by (rule pos_mod_sign)
  have q1: "?q < m" using m by (rule pos_mod_bound)
  from q0 assms have "0 \<le> ?q + (- s) + m" by linarith
  with q0 q1 have "js_rem (?q + (- s) + m) m = (?q + (- s)) mod m" by (rule js_rem_block)
  also have "\<dots> = (p + s + (- s)) mod m" by (rule mod_add_left_eq)
  also have "\<dots> = p" using assms by simp
  finally show ?thesis by (simp only: q)
qed

lemma caesar_block:
  fixes c :: code_unit and s m base :: int
  assumes "base \<le> uint c" "uint c < base + m" "0 \<le> base" "base + m \<le> 65536"
  defines "c' \<equiv> (word_of_int (js_rem (uint c - base + s + m) m + base) :: code_unit)"
  shows "0 \<le> uint c - base + s + m \<Longrightarrow> base \<le> uint c' \<and> uint c' < base + m"
    and "- m \<le> s \<Longrightarrow> s \<le> m \<Longrightarrow>
           word_of_int (js_rem (uint c' - base + (- s) + m) m + base) = c"
proof -
  let ?p = "uint c - base"
  from assms have p: "0 \<le> ?p" "?p < m" by linarith+
  then have m: "0 < m" by linarith
  {
    assume nn: "0 \<le> ?p + s + m"
    with p have q: "js_rem (?p + s + m) m = (?p + s) mod m" by (rule js_rem_block)
    have q0: "0 \<le> (?p + s) mod m" using m by (rule pos_mod_sign)
    have q1: "(?p + s) mod m < m" using m by (rule pos_mod_bound)
    from q0 q1 assms have "0 \<le> (?p + s) mod m + base" "(?p + s) mod m + base < 65536"
      by linarith+
    then have "uint c' = (?p + s) mod m + base"
      unfolding c'_def q by (rule uint_code_unit)
  } note u = this
  {
    assume "0 \<le> ?p + s + m"
    from u [OF this] pos_mod_sign [OF m, of "?p + s"] pos_mod_bound [OF m, of "?p + s"]
    show "base \<le> uint c' \<and> uint c' < base + m" by linarith
  }
  {
    assume s: "- m \<le> s" "s \<le> m"
    with p have nn: "0 \<le> ?p + s + m" by linarith
    with p have q: "js_rem (?p + s + m) m = (?p + s) mod m" by (rule js_rem_block)
    have "uint c' - base = js_rem (?p + s + m) m" using u [OF nn] q by linarith
    then have "js_rem (uint c' - base + (- s) + m) m = ?p"
      using js_rem_block_back [OF p s] by (simp only:)
    then show "word_of_int (js_rem (uint c' - base + (- s) + m) m + base) = c"
      by simp
  }
qed

lemma caesarChar_zero: "caesarChar 0 c = [c]"
proof -
  consider (upper) "65 \<le> uint c \<and> uint c \<le> 90"
    | (lower) "\<not> (65 \<le> uint c \<and> uint c \<le> 90)" "97 \<le> uint c \<and> uint c \<le> 122"
    | (digit) "\<not> (65 \<le> uint c \<and> uint c \<le> 90)" "\<not> (97 \<le> uint c \<and> uint c \<le> 122)"
        "48 \<le> uint c \<and> uint c \<le> 57"
    | (other) "\<not> (65 \<le> uint c \<and> uint c \<le> 90)" "\<not> (97 \<le> uint c \<and> uint c \<le> 122)"
        "\<not> (48 \<le> uint c \<and> uint c \<le> 57)"
    by blast
  then show ?thesis
  proof cases
    case upper
    then have "js_rem (uint c - 65 + 0 + 26) 26 + 65 = uint c"
      using js_rem_block_zero [of "uint c - 65" 26] by linarith
    with upper show ?thesis by (simp only: caesarChar_cases if_True if_False simp_thms word_of_int_uint)
  next
    case lower
    then have "js_rem (uint c - 97 + 0 + 26) 26 + 97 = uint c"
      using js_rem_block_zero [of "uint c - 97" 26] by linarith
    with lower show ?thesis by (simp only: caesarChar_cases if_True if_False simp_thms word_of_int_uint)
  next
    case digit
    then have "js_rem (uint c - 48 + 0 + 10) 10 + 48 = uint c"
      using js_rem_block_zero [of "uint c - 48" 10] by linarith
    with digit show ?thesis by (simp only: caesarChar_cases if_True if_False simp_thms word_of_int_uint)
  next
    case other
    then show ?thesis by (simp only: caesarChar_cases if_False simp_thms)
  qed
qed

lemma caesarCipher_zero: "caesarCipher text 0 = text"
  by (induction "text") (simp_all add: caesarCipher_def caesarChar_zero)

lemma caesarCipher_append:
  "caesarCipher (xs @ ys) shift = caesarCipher xs shift @ caesarCipher ys shift"
  by (simp add: caesarCipher_def)

lemma caesarCipher_Cons:
  "caesarCipher (c # cs) shift = caesarChar shift c @ caesarCipher cs shift"
  by (simp add: caesarCipher_def)

lemma caesarCipher_single: "caesarCipher [c] shift = caesarChar shift c"
  by (simp add: caesarCipher_def)

lemma caesarChar_inverse:
  assumes s: "- 10 \<le> s" "s \<le> 10"
  shows "caesarCipher (caesarChar s c) (- s) = [c]"
proof -
  consider (upper) "65 \<le> uint c \<and> uint c \<le> 90"
    | (lower) "\<not> (65 \<le> uint c \<and> uint c \<le> 90)" "97 \<le> uint c \<and> uint c \<le> 122"
    | (digit) "\<not> (65 \<le> uint c \<and> uint c \<le> 90)" "\<not> (97 \<le> uint c \<and> uint c \<le> 122)"
        "48 \<le> uint c \<and> uint c \<le> 57"
    | (other) "\<not> (65 \<le> uint c \<and> uint c \<le> 90)" "\<not> (97 \<le> uint c \<and> uint c \<le> 122)"
        "\<not> (48 \<le> uint c \<and> uint c \<le> 57)"
    by blast
  then show ?thesis
  proof cases
    case upper
    let ?c' = "word_of_int (js_rem (uint c - 65 + s + 26) 26 + 65) :: code_unit"
    from upper have b: "65 \<le> uint c" "uint c < 65 + 26" by linarith+
    from upper s have nn: "0 \<le> uint c - 65 + s + 26" by linarith
    from s have s': "- 26 \<le> s" "s \<le> 26" by linarith+
    have e: "caesarChar s c = [?c']"
      using upper by (simp only: caesarChar_cases if_True simp_thms)
    have "65 \<le> uint ?c' \<and> uint ?c' < 65 + 26"
      using b by (rule caesar_block(1)) (simp, simp, rule nn)
    then have u: "65 \<le> uint ?c' \<and> uint ?c' \<le> 90" by linarith
    have "word_of_int (js_rem (uint ?c' - 65 + (- s) + 26) 26 + 65) = c"
      using b by (rule caesar_block(2)) (simp, simp, rule s', rule s')
    with u have "caesarChar (- s) ?c' = [c]"
      by (simp only: caesarChar_cases [of "- s" ?c'] if_True simp_thms)
    then show ?thesis by (simp only: e caesarCipher_single)
  next
    case lower
    let ?c' = "word_of_int (js_rem (uint c - 97 + s + 26) 26 + 97) :: code_unit"
    from lower have b: "97 \<le> uint c" "uint c < 97 + 26" by linarith+
    from lower s have nn: "0 \<le> uint c - 97 + s + 26" by linarith
    from s have s': "- 26 \<le> s" "s \<le> 26" by linarith+
    have e: "caesarChar s c = [?c']"
      using lower by (simp only: caesarChar_cases if_True if_False simp_thms)
    have "97 \<le> uint ?c' \<and> uint ?c' < 97 + 26"
      using b by (rule caesar_block(1)) (simp, simp, rule nn)
    then have u: "\<not> (65 \<le> uint ?c' \<and> uint ?c' \<le> 90)" "97 \<le> uint ?c' \<and> uint ?c' \<le> 122"
      by linarith+
    have "word_of_int (js_rem (uint ?c' - 97 + (- s) + 26) 26 + 97) = c"
      using b by (rule caesar_block(2)) (simp, simp, rule s', rule s')
    with u have "caesarChar (- s) ?c' = [c]"
      by (simp only: caesarChar_cases [of "- s" ?c'] if_True if_False simp_thms)
    then show ?thesis by (simp only: e caesarCipher_single)
  next
    case digit
    let ?c' = "word_of_int (js_rem (uint c - 48 + s + 10) 10 + 48) :: code_unit"
    from digit have b: "48 \<le> uint c" "uint c < 48 + 10" by linarith+
    from digit s have nn: "0 \<le> uint c - 48 + s + 10" by linarith
    have e: "caesarChar s c = [?c']"
      using digit by (simp only: caesarChar_cases if_True if_False simp_thms)
    have "48 \<le> uint ?c' \<and> uint ?c' < 48 + 10"
      using b by (rule caesar_block(1)) (simp, simp, rule nn)
    then have u: "\<not> (65 \<le> uint ?c' \<and> uint ?c' \<le> 90)" "\<not> (97 \<le> uint ?c' \<and> uint ?c' \<le> 122)"
        "48 \<le> uint ?c' \<and> uint ?c' \<le> 57"
      by linarith+
    have "word_of_int (js_rem (uint ?c' - 48 + (- s) + 10) 10 + 48) = c"
      using b by (rule caesar_block(2)) (simp, simp, rule s, rule s)
    with u have "caesarChar (- s) ?c' = [c]"
      by (simp only: caesarChar_cases [of "- s" ?c'] if_True if_False simp_thms)
    then show ?thesis by (simp only: e caesarCipher_single)
  next
    case other
    then have "caesarChar s c = [c]" "caesarChar (- s) c = [c]"
      by (simp_all only: caesarChar_cases if_False simp_thms)
    then show ?thesis by (simp only: caesarCipher_single)
  qed
qed

lemma caesarCipher_inverse:
  assumes "- 10 \<le> s" "s \<le> 10"
  shows "caesarCipher (caesarCipher x s) (- s) = x"
proof (induction x)
  case Nil
  show ?case by (simp add: caesarCipher_def)
next
  case (Cons c cs)
  have "caesarCipher (caesarCipher (c # cs) s) (- s)
          = caesarCipher (caesarChar s c) (- s) @ caesarCipher (caesarCipher cs s) (- s)"
    by (simp only: caesarCipher_Cons caesarCipher_append)
  also have "\<dots> = [c] @ cs" by (simp only: caesarChar_inverse [OF assms] Cons.IH)
  finally show ?case by simp
qed

section \<open>digitReversal through refill\<close>

lemma digitReversal_map_refill:
  "concat (digitReversal_map (map (\<lambda>c. [c]) r) i cs) = refill (drop i r) cs"
proof (induction cs arbitrary: i)
  case Nil
  show ?case by simp
next
  case (Cons c cs)
  show ?case
  proof (cases "isAlnum c")
    case False
    then show ?thesis by (simp add: Cons.IH)
  next
    case True
    show ?thesis
    proof (cases "i < length r")
      case True
      then have "drop i r = r ! i # drop (Suc i) r" by (rule Cons_nth_drop_Suc [symmetric])
      with True \<open>isAlnum c\<close> show ?thesis by (simp add: Cons.IH str_or_def)
    next
      case False
      then have "drop i r = []" "drop (Suc i) r = []" by simp_all
      with False \<open>isAlnum c\<close> show ?thesis by (simp add: Cons.IH)
    qed
  qed
qed

lemma digitReversal_refill: "digitReversal x = refill (rev (filter isAlnum x)) x"
  using digitReversal_map_refill [of "rev (filter isAlnum x)" 0 x]
  by (simp add: digitReversal_def rev_map)

lemma length_refill: "length (refill r cs) = length cs"
  by (induction cs arbitrary: r) (simp_all split: list.split)

lemma filter_refill:
  "length r = length (filter isAlnum cs) \<Longrightarrow> \<forall>a\<in>set r. isAlnum a \<Longrightarrow>
     filter isAlnum (refill r cs) = r"
proof (induction cs arbitrary: r)
  case Nil
  then show ?case by simp
next
  case (Cons c cs)
  show ?case
  proof (cases "isAlnum c")
    case False
    with Cons.prems show ?thesis by (simp add: Cons.IH)
  next
    case True
    with Cons.prems obtain a r' where r: "r = a # r'" by (cases r) simp_all
    with True Cons.prems show ?thesis by (simp add: Cons.IH)
  qed
qed

lemma refill_refill:
  "\<forall>a\<in>set r'. isAlnum a \<Longrightarrow> length (filter isAlnum cs) \<le> length r \<Longrightarrow>
     refill r (refill r' cs) = refill r cs"
proof (induction cs arbitrary: r r')
  case Nil
  show ?case by simp
next
  case (Cons c cs)
  show ?case
  proof (cases "isAlnum c")
    case False
    with Cons.prems show ?thesis by (simp add: Cons.IH)
  next
    case True
    with Cons.prems obtain a r0 where r: "r = a # r0" by (cases r) simp_all
    with True Cons.prems show ?thesis
      by (cases r') (simp_all add: Cons.IH)
  qed
qed

lemma refill_own: "refill (filter isAlnum cs) cs = cs"
  by (induction cs) simp_all

lemma digitReversal_involution: "digitReversal (digitReversal x) = x"
proof -
  let ?F = "filter isAlnum x"
  let ?y = "refill (rev ?F) x"
  have "filter isAlnum ?y = rev ?F" by (rule filter_refill) simp_all
  then have "digitReversal (digitReversal x) = refill (rev (rev ?F)) ?y"
    by (simp only: digitReversal_refill)
  also have "\<dots> = refill ?F ?y" by simp
  also have "\<dots> = refill ?F x" by (rule refill_refill) simp_all
  also have "\<dots> = x" by (rule refill_own)
  finally show ?thesis .
qed

lemma length_digitReversal: "length (digitReversal x) = length x"
  by (simp only: digitReversal_refill length_refill)

section \<open>The branches of encode and decode\<close>

lemma tag_neq:
  "str ''digit_reversal'' \<noteq> str ''caesar''"
  "str ''position_shift'' \<noteq> str ''caesar''"
  "str ''position_shift'' \<noteq> str ''digit_reversal''"
  "str ''custom_mapping'' \<noteq> str ''caesar''"
  "str ''custom_mapping'' \<noteq> str ''digit_reversal''"
  "str ''custom_mapping'' \<noteq> str ''position_shift''"
  "str ''custom'' \<noteq> str ''caesar''"
  "str ''custom'' \<noteq> str ''digit_reversal''"
  "str ''custom'' \<noteq> str ''position_shift''"
  "str ''custom'' \<noteq> str ''custom_mapping''"
  by (simp_all add: str_def)

lemma encode_caesar:
  "algorithm f = str ''caesar'' \<Longrightarrow>
     encode run x f = caesarCipher x (num_or (shiftValue (parameters f)) 0)"
  by (simp add: encode_def encode_try_def caesarCipher_def)

lemma decode_caesar:
  "algorithm f = str ''caesar'' \<Longrightarrow>
     decode run x f = caesarCipher x (- num_or (shiftValue (parameters f)) 0)"
  by (simp add: decode_def decode_try_def caesarCipher_def)

lemma digitReversal_Nil: "digitReversal [] = []"
  by (simp add: digitReversal_def)

lemma encode_digit_reversal:
  "algorithm f = str ''digit_reversal'' \<Longrightarrow> encode run x f = digitReversal x"
  by (simp add: encode_def encode_try_def tag_neq digitReversal_Nil)

lemma decode_digit_reversal:
  "algorithm f = str ''digit_reversal'' \<Longrightarrow> decode run x f = digitReversal x"
  by (simp add: decode_def decode_try_def tag_neq digitReversal_Nil)

lemma encode_position_shift:
  "algorithm f = str ''position_shift'' \<Longrightarrow>
     encode run x f = positionShift x (num_or (shiftValue (parameters f)) 0)"
  by (simp add: encode_def encode_try_def tag_neq positionShift_short)

lemma decode_position_shift:
  "algorithm f = str ''position_shift'' \<Longrightarrow>
     decode run x f = positionShift x (- num_or (shiftValue (parameters f)) 0)"
  by (simp add: decode_def decode_try_def tag_neq positionShift_short)

lemma encode_custom_mapping:
  "algorithm f = str ''custom_mapping'' \<Longrightarrow>
     encode run x f = customMapping_apply x
        (case customMapping (parameters f) of Some m \<Rightarrow> m | None \<Rightarrow> [])"
  by (simp add: encode_def encode_try_def tag_neq customMapping_apply_def)

lemma decode_custom_mapping:
  "algorithm f = str ''custom_mapping'' \<Longrightarrow>
     decode run x f = reverseCustomMapping x
        (case customMapping (parameters f) of Some m \<Rightarrow> m | None \<Rightarrow> [])"
  by (simp add: decode_def decode_try_def tag_neq reverseCustomMapping_def)

lemma decode_custom: "algorithm f = str ''custom'' \<Longrightarrow> decode run x f = x"
  by (simp add: decode_def decode_try_def tag_neq reverseCustomFunction_def)

lemma encode_try_throws:
  "encode_try run v f = Inl e \<longleftrightarrow>
     algorithm f \<notin> set EncodingAlgorithm \<and> e = UnknownAlgorithm (algorithm f)"
  by (auto simp add: encode_try_def EncodingAlgorithm_def)

lemma decode_try_throws:
  "decode_try run v f = Inl e \<longleftrightarrow>
     algorithm f \<notin> set EncodingAlgorithm \<and> e = UnknownAlgorithm (algorithm f)"
  by (auto simp add: decode_try_def EncodingAlgorithm_def)

lemma num_or_zero: "num_or a 0 = (case a of Some n \<Rightarrow> n | None \<Rightarrow> 0)"
  by (simp add: num_or_def split: option.split)

lemma builtin_tags:
  "algorithm caesar_shift_3 = str ''caesar''" "shiftValue (parameters caesar_shift_3) = Some 3"
  "algorithm caesar_shift_0 = str ''caesar''" "shiftValue (parameters caesar_shift_0) = Some 0"
  "algorithm caesar_shift_13 = str ''caesar''" "shiftValue (parameters caesar_shift_13) = Some 13"
  "algorithm digit_reversal_builtin = str ''digit_reversal''"
  "algorithm position_shift_2 = str ''position_shift''"
  "shiftValue (parameters position_shift_2) = Some 2"
  "algorithm mapping_a_c = str ''custom_mapping''"
  "customMapping (parameters mapping_a_c) = Some [(str ''a'', str ''b''), (str ''c'', str ''b'')]"
  "algorithm mapping_c_a = str ''custom_mapping''"
  "customMapping (parameters mapping_c_a) = Some [(str ''c'', str ''b''), (str ''a'', str ''b'')]"
  "algorithm custom_reverse = str ''custom''"
  "algorithm unknown_formula = str ''rot47''"
  by (simp_all add: caesar_shift_3_def caesar_shift_0_def caesar_shift_13_def
      digit_reversal_builtin_def position_shift_2_def mapping_a_c_def mapping_c_a_def
      custom_reverse_def unknown_formula_def mk_formula_def no_parameters_def)

lemma caesarCipher_ABC123XYZ: "caesarCipher (str ''ABC123XYZ'') 3 = str ''DEF456ABC''"
  by (simp add: caesarCipher_def caesarChar_cases js_rem_def str_def)

section \<open>Round trips\<close>

lemma roundtrip_digit_reversal:
  "algorithm f = str ''digit_reversal'' \<Longrightarrow> decode run (encode run x f) f = x"
  by (simp only: encode_digit_reversal decode_digit_reversal digitReversal_involution)

lemma roundtrip_position_shift:
  "algorithm f = str ''position_shift'' \<Longrightarrow> decode run (encode run x f) f = x"
  by (simp only: encode_position_shift decode_position_shift positionShift_inverse)

lemma roundtrip_caesar_small_shift:
  assumes "algorithm f = str ''caesar''" "shiftValue (parameters f) = Some s" "- 10 \<le> s" "s \<le> 10"
  shows "decode run (encode run x f) f = x"
proof -
  from assms(2) have "num_or (shiftValue (parameters f)) 0 = s" by (simp add: num_or_zero)
  then show ?thesis
    by (simp only: encode_caesar [OF assms(1)] decode_caesar [OF assms(1)]
        caesarCipher_inverse [OF assms(3,4)])
qed

lemma caesarCipher_A9: "caesarCipher (str ''A9'') 13 = str ''N2''"
  by (simp add: caesarCipher_def caesarChar_cases js_rem_def str_def)

lemma caesarCipher_N2: "caesarCipher (str ''N2'') (- 13) = str ''A/''"
  by (simp add: caesarCipher_def caesarChar_cases js_rem_def str_def)

lemma validate_empty_caesar:
  "errors (validateFormula (mk_formula '''' '''' ''caesar'' no_parameters)) =
     [str ''Formula ID is required'', str ''Formula name is required'',
      str ''Caesar cipher requires a numeric shift value'']"
  by (simp add: validateFormula_def mk_formula_def no_parameters_def str_def)

lemma invalid_empty_caesar:
  "\<not> isValid (validateFormula (mk_formula '''' '''' ''caesar'' no_parameters))"
  by (simp add: validateFormula_def mk_formula_def no_parameters_def str_def)

section \<open>Custom mappings\<close>

lemma concat_map_single: "concat (map (\<lambda>c. [g c]) xs) = map g xs"
  by (induction xs) simp_all

lemma reverseMap_snoc: "reverseMap (m @ [(k, v)]) v = Some k"
  by (simp add: reverseMap_def)

lemma decode_mapping_a_c:
  "decode run x mapping_a_c =
     map (\<lambda>u. if u = of_char CHR ''b'' then of_char CHR ''c'' else u) x"
proof -
  have "\<And>u. str_or (reverseMap [(str ''a'', str ''b''), (str ''c'', str ''b'')] [u]) [u]
          = [if u = of_char CHR ''b'' then of_char CHR ''c'' else u]"
    by (simp add: reverseMap_def str_or_def str_def)
  then show ?thesis
    by (simp add: decode_custom_mapping builtin_tags reverseCustomMapping_def
        concat_map_single)
qed

lemma decode_mapping_c_a:
  "decode run x mapping_c_a =
     map (\<lambda>u. if u = of_char CHR ''b'' then of_char CHR ''a'' else u) x"
proof -
  have "\<And>u. str_or (reverseMap [(str ''c'', str ''b''), (str ''a'', str ''b'')] [u]) [u]
          = [if u = of_char CHR ''b'' then of_char CHR ''a'' else u]"
    by (simp add: reverseMap_def str_or_def str_def)
  then show ?thesis
    by (simp add: decode_custom_mapping builtin_tags reverseCustomMapping_def
        concat_map_single)
qed

lemma not_reversible_a_c:
  assumes "of_char CHR ''b'' \<in> set x"
  shows "\<not> isReversible (testFormula run mapping_a_c x)"
proof
  let ?h = "\<lambda>u::code_unit. if u = of_char CHR ''b'' then of_char CHR ''c'' else u"
  assume "isReversible (testFormula run mapping_a_c x)"
  then have "x = map ?h (encode run x mapping_a_c)"
    by (simp add: testFormula_def Let_def decode_mapping_a_c)
  then have "of_char CHR ''b'' \<in> set (map ?h (encode run x mapping_a_c))"
    using assms by simp
  then obtain u where "?h u = (of_char CHR ''b'' :: code_unit)" by auto
  then show False by (simp split: if_splits)
qed

lemma not_reversible_c_a:
  assumes "of_char CHR ''b'' \<in> set x"
  shows "\<not> isReversible (testFormula run mapping_c_a x)"
proof
  let ?h = "\<lambda>u::code_unit. if u = of_char CHR ''b'' then of_char CHR ''a'' else u"
  assume "isReversible (testFormula run mapping_c_a x)"
  then have "x = map ?h (encode run x mapping_c_a)"
    by (simp add: testFormula_def Let_def decode_mapping_c_a)
  then have "of_char CHR ''b'' \<in> set (map ?h (encode run x mapping_c_a))"
    using assms by simp
  then obtain u where "?h u = (of_char CHR ''b'' :: code_unit)" by auto
  then show False by (simp split: if_splits)
qed

section \<open>Worked examples and unknown tags\<close>

lemma digitReversal_AB_12: "digitReversal (str ''AB-12'') = str ''21-BA''"
  by (simp add: digitReversal_def str_def isAlnum_def isLetter_def isUpper_def isDigit_def
      str_or_def)

lemma digitReversal_21_BA: "digitReversal (str ''21-BA'') = str ''AB-12''"
  by (simp add: digitReversal_def str_def isAlnum_def isLetter_def isUpper_def isDigit_def
      str_or_def)

lemma positionShift_ABCDE: "positionShift (str ''ABCDE'') 2 = str ''CDEAB''"
proof -
  have l: "1 < length (str ''ABCDE'')" by (simp add: str_def)
  have m: "2 mod int (length (str ''ABCDE'')) = 2" by (simp add: str_def)
  show ?thesis unfolding positionShift_long [OF l] m by (simp add: str_def)
qed

lemma positionShift_CDEAB: "positionShift (str ''CDEAB'') (- 2) = str ''ABCDE''"
proof -
  have l: "1 < length (str ''CDEAB'')" by (simp add: str_def)
  have m: "(- 2) mod int (length (str ''CDEAB'')) = 3" by (simp add: str_def)
  show ?thesis unfolding positionShift_long [OF l] m by (simp add: str_def)
qed

lemma encode_unknown: "algorithm f \<notin> set EncodingAlgorithm \<Longrightarrow> encode run v f = v"
  using encode_try_throws [of run v f "UnknownAlgorithm (algorithm f)"]
  by (simp add: encode_def)

lemma decode_unknown: "algorithm f \<notin> set EncodingAlgorithm \<Longrightarrow> decode run v f = v"
  using decode_try_throws [of run v f "UnknownAlgorithm (algorithm f)"]
  by (simp add: decode_def)

lemma unknown_formula_tag: "algorithm unknown_formula \<notin> set EncodingAlgorithm"
  by (simp add: builtin_tags EncodingAlgorithm_def str_def)

lemma encode_custom_reverse: "encode reverse_engine (str ''abc'') custom_reverse = str ''cba''"
  by (simp add: encode_def encode_try_def custom_reverse_def mk_formula_def no_parameters_def
      customFunction_apply_def reverse_engine_def str_or_def str_def)

section \<open>The properties of the specification\<close>

text \<open>
  C1. Round-trip law: for \<open>caesar\<close>, \<open>digit_reversal\<close> and \<open>position_shift\<close>, every string
  and every integer \<open>shiftValue\<close>, decoding the encoded string gives the string back.
  The lemmas \<open>roundtrip_digit_reversal\<close>, \<open>roundtrip_position_shift\<close> and
  \<open>roundtrip_caesar_small_shift\<close> show the law for the two other algorithms and for
  \<open>caesar\<close> with a shift between \<open>-10\<close> and \<open>10\<close>. Beyond that range the single
  \<open>+ 26\<close> (\<open>+ 10\<close> for digits) in front of \<open>%\<close> no longer makes the dividend
  non-negative, \<open>%\<close> returns a negative remainder and the character leaves its
  alphabet. The theorem evaluates the service at \<open>shiftValue = 13\<close> on the string
  \<open>A9\<close>: it is encoded to \<open>N2\<close> and decoded to \<open>A/\<close>.
\<close>

theorem caesar_roundtrip_fails_shift_13:
  "encode run (str ''A9'') caesar_shift_13 = str ''N2''
   \<and> decode run (encode run (str ''A9'') caesar_shift_13) caesar_shift_13 = str ''A/''
   \<and> decode run (encode run (str ''A9'') caesar_shift_13) caesar_shift_13 \<noteq> str ''A9''"
proof -
  have e: "encode run (str ''A9'') caesar_shift_13 = str ''N2''"
    by (simp add: encode_caesar builtin_tags num_or_zero caesarCipher_A9)
  have d: "decode run (str ''N2'') caesar_shift_13 = str ''A/''"
    by (simp add: decode_caesar builtin_tags num_or_zero caesarCipher_N2)
  have "str ''A/'' \<noteq> str ''A9''" by (simp add: str_def)
  with e d show ?thesis by simp
qed

text \<open>
  C2. Caesar worked example: with a \<open>caesar\<close> formula whose \<open>shiftValue\<close> is 3, \<open>encode\<close>
  maps \<open>ABC123XYZ\<close> to \<open>DEF456ABC\<close> (the letters \<open>XYZ\<close> wrap to \<open>ABC\<close>), and so not to
  the string \<open>DEF456CAB\<close>.
\<close>

theorem caesar_worked_example:
  assumes "algorithm f = str ''caesar''" "shiftValue (parameters f) = Some 3"
  shows "encode run (str ''ABC123XYZ'') f = str ''DEF456ABC''"
  using assms by (simp add: encode_caesar num_or_zero caesarCipher_ABC123XYZ)

theorem caesar_worked_example_witness:
  "algorithm caesar_shift_3 = str ''caesar'' \<and> shiftValue (parameters caesar_shift_3) = Some 3
   \<and> encode no_engine (str ''ABC123XYZ'') caesar_shift_3 = str ''DEF456ABC''"
  using caesar_worked_example [of caesar_shift_3 no_engine] by (simp add: builtin_tags)

theorem caesar_worked_example_counterexample:
  "encode no_engine (str ''ABC123XYZ'') caesar_shift_3 \<noteq> str ''DEF456CAB''"
proof -
  have "encode no_engine (str ''ABC123XYZ'') caesar_shift_3 = str ''DEF456ABC''"
    by (simp add: encode_caesar builtin_tags num_or_zero caesarCipher_ABC123XYZ)
  moreover have "str ''DEF456ABC'' \<noteq> str ''DEF456CAB''" by (simp add: str_def)
  ultimately show ?thesis by simp
qed

text \<open>
  C3. Validator worked example: for the formula with empty id, empty name, algorithm
  \<open>caesar\<close> and no parameters, \<open>validateFormula\<close> returns \<open>isValid = false\<close> and exactly
  three errors (id, name, shift value), and so fewer than four.
\<close>

theorem validator_worked_example:
  "isValid (validateFormula (mk_formula '''' '''' ''caesar'' no_parameters)) = False
   \<and> length (errors (validateFormula (mk_formula '''' '''' ''caesar'' no_parameters))) = 3
   \<and> errors (validateFormula (mk_formula '''' '''' ''caesar'' no_parameters)) =
       [str ''Formula ID is required'', str ''Formula name is required'',
        str ''Caesar cipher requires a numeric shift value'']"
  by (simp add: validate_empty_caesar invalid_empty_caesar)

theorem validator_worked_example_counterexample:
  "\<not> 4 \<le> length (errors (validateFormula (mk_formula '''' '''' ''caesar'' no_parameters)))"
  by (simp add: validate_empty_caesar)

text \<open>
  C4. Non-injective custom mapping: for the mapping \<open>{a: 'b', c: 'b'}\<close> the inverse object
  sends \<open>b\<close> to the key inserted last. In general the last entry of a mapping wins for
  its value; with the entries in the order \<open>a\<close>, \<open>c\<close> decode replaces every \<open>b\<close> by
  \<open>c\<close>, in the order \<open>c\<close>, \<open>a\<close> by \<open>a\<close>. For every sample string that contains the
  ambiguous character \<open>b\<close>, \<open>testFormula\<close> reports \<open>isReversible = false\<close>.
\<close>

theorem custom_mapping_last_entry_wins:
  "reverseMap (m @ [(k, v)]) v = Some k
   \<and> reverseMap [(str ''a'', str ''b''), (str ''c'', str ''b'')] (str ''b'') = Some (str ''c'')
   \<and> reverseMap [(str ''c'', str ''b''), (str ''a'', str ''b'')] (str ''b'') = Some (str ''a'')
   \<and> decode run x mapping_a_c
        = map (\<lambda>u. if u = of_char CHR ''b'' then of_char CHR ''c'' else u) x
   \<and> decode run x mapping_c_a
        = map (\<lambda>u. if u = of_char CHR ''b'' then of_char CHR ''a'' else u) x
   \<and> (of_char CHR ''b'' \<in> set x \<longrightarrow>
         isReversible (testFormula run mapping_a_c x) = False
         \<and> isReversible (testFormula run mapping_c_a x) = False)"
proof -
  have "reverseMap [(str ''a'', str ''b''), (str ''c'', str ''b'')] (str ''b'') = Some (str ''c'')"
    using reverseMap_snoc [of "[(str ''a'', str ''b'')]" "str ''c''" "str ''b''"] by simp
  moreover
  have "reverseMap [(str ''c'', str ''b''), (str ''a'', str ''b'')] (str ''b'') = Some (str ''a'')"
    using reverseMap_snoc [of "[(str ''c'', str ''b'')]" "str ''a''" "str ''b''"] by simp
  moreover have "isReversible (testFormula run mapping_a_c x) = False"
    if "of_char CHR ''b'' \<in> set x"
    using not_reversible_a_c [OF that] by simp
  moreover have "isReversible (testFormula run mapping_c_a x) = False"
    if "of_char CHR ''b'' \<in> set x"
    using not_reversible_c_a [OF that] by simp
  ultimately show ?thesis
    using reverseMap_snoc [of m k v] decode_mapping_a_c [of run x] decode_mapping_c_a [of run x]
    by blast
qed

theorem custom_mapping_last_entry_wins_witness:
  "of_char CHR ''b'' \<in> set (str ''abc'')
   \<and> decode no_engine (str ''b'') mapping_a_c = str ''c''
   \<and> encode no_engine (str ''abc'') mapping_a_c = str ''bbb''
   \<and> decode no_engine (str ''bbb'') mapping_a_c = str ''ccc''
   \<and> isReversible (testFormula no_engine mapping_a_c (str ''abc'')) = False"
proof -
  have "encode no_engine (str ''abc'') mapping_a_c = str ''bbb''"
    by (simp add: encode_custom_mapping builtin_tags customMapping_apply_def str_def str_or_def)
  then show ?thesis
    using custom_mapping_last_entry_wins [of "[]" "[]" "[]" no_engine "str ''abc''"]
      custom_mapping_last_entry_wins [of "[]" "[]" "[]" no_engine "str ''b''"]
      custom_mapping_last_entry_wins [of "[]" "[]" "[]" no_engine "str ''bbb''"]
    by (simp add: str_def)
qed

text \<open>
  C5. Digit reversal is an involution: applying \<open>digitReversal\<close> twice gives the string
  back, for every string. For a \<open>digit_reversal\<close> formula \<open>encode\<close> and \<open>decode\<close> are both
  this transform, hence the same operation; \<open>AB-12\<close> is encoded to \<open>21-BA\<close> and \<open>21-BA\<close>
  to \<open>AB-12\<close>.
\<close>

theorem digit_reversal_involution:
  "digitReversal (digitReversal x) = x
   \<and> (algorithm f = str ''digit_reversal'' \<longrightarrow>
         encode run x f = digitReversal x \<and> decode run x f = digitReversal x
         \<and> encode run x f = decode run x f
         \<and> encode run (encode run x f) f = x
         \<and> encode run (str ''AB-12'') f = str ''21-BA''
         \<and> encode run (str ''21-BA'') f = str ''AB-12'')"
  by (simp add: digitReversal_involution encode_digit_reversal decode_digit_reversal
      digitReversal_AB_12 digitReversal_21_BA)

theorem digit_reversal_involution_witness:
  "algorithm digit_reversal_builtin = str ''digit_reversal''
   \<and> encode no_engine (str ''AB-12'') digit_reversal_builtin = str ''21-BA''
   \<and> decode no_engine (str ''21-BA'') digit_reversal_builtin = str ''AB-12''
   \<and> encode no_engine (str ''21-BA'') digit_reversal_builtin = str ''AB-12''"
  using digit_reversal_involution [of "str ''AB-12''" digit_reversal_builtin no_engine]
    digit_reversal_involution [of "str ''21-BA''" digit_reversal_builtin no_engine]
  by (simp add: builtin_tags)

text \<open>
  C6. Position shift: for a \<open>position_shift\<close> formula with an integer \<open>shiftValue\<close> and a
  string of length \<open>L\<close>, \<open>encode\<close> and \<open>decode\<close> return the string unchanged when
  \<open>L \<le> 1\<close>; otherwise \<open>encode\<close> returns the left rotation of the string by
  \<open>s = ((shiftValue mod L) + L) mod L\<close>, that is the characters from offset \<open>s\<close> on
  followed by the first \<open>s\<close> characters. The offset the code computes with the
  remainder operator \<open>%\<close> is this \<open>s\<close>. With \<open>shiftValue = 2\<close>, \<open>ABCDE\<close> is encoded
  to \<open>CDEAB\<close> and \<open>CDEAB\<close> is decoded to \<open>ABCDE\<close>.
\<close>

theorem position_shift_semantics:
  assumes "algorithm f = str ''position_shift''" and "shiftValue (parameters f) = Some sv"
  shows "(length x \<le> 1 \<longrightarrow> encode run x f = x \<and> decode run x f = x)
   \<and> (1 < length x \<longrightarrow>
         encode run x f = rotate (nat ((sv mod int (length x) + int (length x)) mod int (length x))) x
         \<and> encode run x f = drop (nat ((sv mod int (length x) + int (length x)) mod int (length x))) x
                              @ take (nat ((sv mod int (length x) + int (length x)) mod int (length x))) x
         \<and> js_rem (js_rem sv (int (length x)) + int (length x)) (int (length x))
             = (sv mod int (length x) + int (length x)) mod int (length x))
   \<and> (sv = 2 \<longrightarrow> encode run (str ''ABCDE'') f = str ''CDEAB''
                  \<and> decode run (str ''CDEAB'') f = str ''ABCDE'')"
proof -
  from assms(2) have n: "num_or (shiftValue (parameters f)) 0 = sv" by (simp add: num_or_zero)
  have e: "encode run y f = positionShift y sv" for y
    by (simp only: encode_position_shift [OF assms(1)] n)
  have d: "decode run y f = positionShift y (- sv)" for y
    by (simp only: decode_position_shift [OF assms(1)] n)
  have short: "encode run x f = x \<and> decode run x f = x" if "length x \<le> 1"
    by (simp only: e d positionShift_short [OF that])
  have long: "encode run x f = rotate (nat ((sv mod int (length x) + int (length x)) mod int (length x))) x
         \<and> encode run x f = drop (nat ((sv mod int (length x) + int (length x)) mod int (length x))) x
                              @ take (nat ((sv mod int (length x) + int (length x)) mod int (length x))) x
         \<and> js_rem (js_rem sv (int (length x)) + int (length x)) (int (length x))
             = (sv mod int (length x) + int (length x)) mod int (length x)"
    if "1 < length x"
  proof -
    from that have L: "0 < int (length x)" by linarith
    have s: "(sv mod int (length x) + int (length x)) mod int (length x) = sv mod int (length x)"
      by simp
    show ?thesis
      by (simp only: s e positionShift_rotate [OF that] positionShift_long [OF that, symmetric]
          js_rem_normalise [OF L] simp_thms)
  qed
  have ex: "encode run (str ''ABCDE'') f = str ''CDEAB'' \<and> decode run (str ''CDEAB'') f = str ''ABCDE''"
    if "sv = 2"
    by (simp only: e d that positionShift_ABCDE positionShift_CDEAB simp_thms)
  from short long ex show ?thesis by blast
qed

theorem position_shift_semantics_witness:
  "algorithm position_shift_2 = str ''position_shift''
   \<and> shiftValue (parameters position_shift_2) = Some 2
   \<and> 1 < length (str ''ABCDE'')
   \<and> encode no_engine (str ''ABCDE'') position_shift_2 = rotate 2 (str ''ABCDE'')
   \<and> encode no_engine (str ''ABCDE'') position_shift_2 = str ''CDEAB''
   \<and> decode no_engine (str ''CDEAB'') position_shift_2 = str ''ABCDE''
   \<and> length (str ''A'') \<le> 1
   \<and> encode no_engine (str ''A'') position_shift_2 = str ''A''
   \<and> decode no_engine (str ''A'') position_shift_2 = str ''A''"
proof -
  have t: "algorithm position_shift_2 = str ''position_shift''"
    and p: "shiftValue (parameters position_shift_2) = Some 2"
    by (simp_all add: builtin_tags)
  have l: "length (str ''ABCDE'') = 5" "length (str ''A'') = 1" by (simp_all add: str_def)
  show ?thesis
    using position_shift_semantics [OF t p, of "str ''ABCDE''" no_engine]
      position_shift_semantics [OF t p, of "str ''A''" no_engine]
    by (simp add: t p l)
qed

text \<open>
  C7. Fail-open error policy: \<open>encode\<close> and \<open>decode\<close> raise nothing. In the model the
  only exception of a \<open>try\<close> block is the one of the \<open>default\<close> branch; whenever a
  \<open>try\<close> block throws, the method returns its input. For every string and every
  formula whose algorithm tag is outside the enumeration, the \<open>try\<close> block throws
  and \<open>encode\<close> and \<open>decode\<close> return the string unchanged.
\<close>

theorem fail_open:
  "(\<forall>e. encode_try run v f = Inl e \<longrightarrow>
          e = UnknownAlgorithm (algorithm f) \<and> encode run v f = v)
   \<and> (\<forall>e. decode_try run v f = Inl e \<longrightarrow>
          e = UnknownAlgorithm (algorithm f) \<and> decode run v f = v)
   \<and> (algorithm f \<notin> set EncodingAlgorithm \<longrightarrow>
          encode_try run v f = Inl (UnknownAlgorithm (algorithm f))
          \<and> decode_try run v f = Inl (UnknownAlgorithm (algorithm f))
          \<and> encode run v f = v \<and> decode run v f = v)"
proof (intro conjI allI impI)
  fix e
  assume "encode_try run v f = Inl e"
  from encode_try_throws [THEN iffD1, OF this] have u: "algorithm f \<notin> set EncodingAlgorithm" and e: "e = UnknownAlgorithm (algorithm f)"
    by blast+
  from e show "e = UnknownAlgorithm (algorithm f)" .
  from u show "encode run v f = v" by (rule encode_unknown)
next
  fix e
  assume "decode_try run v f = Inl e"
  from decode_try_throws [THEN iffD1, OF this] have u: "algorithm f \<notin> set EncodingAlgorithm" and e: "e = UnknownAlgorithm (algorithm f)"
    by blast+
  from e show "e = UnknownAlgorithm (algorithm f)" .
  from u show "decode run v f = v" by (rule decode_unknown)
next
  assume u: "algorithm f \<notin> set EncodingAlgorithm"
  then show "encode_try run v f = Inl (UnknownAlgorithm (algorithm f))"
    by (simp only: encode_try_throws simp_thms)
  from u show "decode_try run v f = Inl (UnknownAlgorithm (algorithm f))"
    by (simp only: decode_try_throws simp_thms)
  from u show "encode run v f = v" by (rule encode_unknown)
  from u show "decode run v f = v" by (rule decode_unknown)
qed

theorem fail_open_witness:
  "algorithm unknown_formula \<notin> set EncodingAlgorithm
   \<and> encode_try no_engine (str ''X'') unknown_formula = Inl (UnknownAlgorithm (str ''rot47''))
   \<and> encode no_engine (str ''X'') unknown_formula = str ''X''
   \<and> decode no_engine (str ''X'') unknown_formula = str ''X''"
proof -
  have u: "algorithm unknown_formula \<notin> set EncodingAlgorithm" by (rule unknown_formula_tag)
  have t: "algorithm unknown_formula = str ''rot47''" by (rule builtin_tags)
  have "encode_try no_engine (str ''X'') unknown_formula
          = Inl (UnknownAlgorithm (algorithm unknown_formula))
        \<and> encode no_engine (str ''X'') unknown_formula = str ''X''
        \<and> decode no_engine (str ''X'') unknown_formula = str ''X''"
    using fail_open [of no_engine "str ''X''" unknown_formula] u by blast
  with u show ?thesis unfolding t by blast
qed

text \<open>
  C8. Caesar identity: for a \<open>caesar\<close> formula with \<open>shiftValue = 0\<close>, \<open>encode\<close> returns
  every string unchanged.
\<close>

theorem caesar_identity:
  assumes "algorithm f = str ''caesar''" and "shiftValue (parameters f) = Some 0"
  shows "encode run x f = x"
  using assms by (simp add: encode_caesar num_or_zero caesarCipher_zero)

theorem caesar_identity_witness:
  "algorithm caesar_shift_0 = str ''caesar'' \<and> shiftValue (parameters caesar_shift_0) = Some 0
   \<and> encode no_engine (str ''ABC123XYZ'') caesar_shift_0 = str ''ABC123XYZ''"
  using caesar_identity [of caesar_shift_0 no_engine "str ''ABC123XYZ''"]
  by (simp add: builtin_tags)

text \<open>
  C9. Custom-algorithm decode asymmetry: for a formula whose algorithm is \<open>custom\<close>,
  \<open>decode\<close> returns every string unchanged, whatever the function code and the engine;
  it does not undo the transform that \<open>encode\<close> applied.
\<close>

theorem custom_decode_is_identity:
  assumes "algorithm f = str ''custom''"
  shows "decode run x f = x \<and> decode run (encode run x f) f = encode run x f"
  using assms by (simp add: decode_custom)

theorem custom_decode_is_identity_witness:
  "algorithm custom_reverse = str ''custom''
   \<and> encode reverse_engine (str ''abc'') custom_reverse = str ''cba''
   \<and> decode reverse_engine (str ''cba'') custom_reverse = str ''cba''"
  using custom_decode_is_identity [of custom_reverse reverse_engine "str ''cba''"]
  by (simp add: builtin_tags encode_custom_reverse)

text \<open>
  C10. Length preservation: for a formula whose algorithm is \<open>caesar\<close>,
  \<open>digit_reversal\<close> or \<open>position_shift\<close> and every string, the results of \<open>encode\<close> and
  of \<open>decode\<close> have as many UTF-16 code units as the string, whatever the parameters.
\<close>

theorem length_preserved:
  assumes "algorithm f \<in> {str ''caesar'', str ''digit_reversal'', str ''position_shift''}"
  shows "length (encode run x f) = length x \<and> length (decode run x f) = length x"
proof -
  consider (caesar) "algorithm f = str ''caesar''"
    | (digit_reversal) "algorithm f = str ''digit_reversal''"
    | (position_shift) "algorithm f = str ''position_shift''"
    using assms by blast
  then show ?thesis
  proof cases
    case caesar
    then show ?thesis by (simp only: encode_caesar decode_caesar length_caesarCipher simp_thms)
  next
    case digit_reversal
    then show ?thesis
      by (simp only: encode_digit_reversal decode_digit_reversal length_digitReversal simp_thms)
  next
    case position_shift
    then show ?thesis
      by (simp only: encode_position_shift decode_position_shift length_positionShift simp_thms)
  qed
qed

theorem length_preserved_witness:
  "algorithm caesar_shift_13 \<in> {str ''caesar'', str ''digit_reversal'', str ''position_shift''}
   \<and> length (encode no_engine (str ''A9'') caesar_shift_13) = 2
   \<and> length (decode no_engine (str ''N2'') caesar_shift_13) = 2"
proof -
  have t: "algorithm caesar_shift_13 \<in> {str ''caesar'', str ''digit_reversal'', str ''position_shift''}"
    by (simp add: builtin_tags)
  have l: "length (str ''A9'') = 2" "length (str ''N2'') = 2" by (simp_all add: str_def)
  show ?thesis
    using length_preserved [OF t, of no_engine "str ''A9''"]
      length_preserved [OF t, of no_engine "str ''N2''"]
    using t by (simp add: l)
qed

end
